theory Spec2Isabelle
  imports Main "HOL-Library.Word" "HOL-Library.Signed_Division"
begin

unbundle bit_operations_syntax

section \<open>The JOS kernel monitor (kern/monitor.c)\<close>

subsection \<open>Data\<close>

type_synonym u32 = "32 word"
type_synonym int16 = "16 word"

text \<open>
  \<^verbatim>\<open>struct Trapframe\<close> is declared in inc/trap.h. The monitor reads and writes only
  \<^verbatim>\<open>tf_eflags\<close>; every other field of the structure is kept, untouched, in \<open>tf_other\<close>.
  A \<^verbatim>\<open>struct Trapframe *\<close> that may be \<^verbatim>\<open>NULL\<close> is a \<open>Trapframe option\<close>.
\<close>

record 'r Trapframe =
  tf_eflags :: u32
  tf_other :: 'r

text \<open>
  \<^verbatim>\<open>struct Eipdebuginfo\<close> (kern/kdebug.h), as \<^verbatim>\<open>debuginfo_eip\<close> fills it in.
  \<^verbatim>\<open>eip_fn_name\<close> is a pointer into the symbol string table and is not terminated at
  \<^verbatim>\<open>eip_fn_namelen\<close>: \<open>eip_fn_name info i\<close> is the byte \<^verbatim>\<open>info.eip_fn_name[i]\<close>.
\<close>

record Eipdebuginfo =
  eip_file :: string
  eip_line :: int
  eip_fn_name :: "nat \<Rightarrow> char"
  eip_fn_namelen :: int
  eip_fn_addr :: u32
  eip_fn_narg :: int

text \<open>
  Console output: one \<open>Cprintf\<close> per call of \<^verbatim>\<open>cprintf\<close>, with the format string and the
  values of the arguments (formatting itself belongs to the console, not to the monitor).
\<close>

datatype cval = U u32 | I int | S string

datatype cout = Cprintf string "cval list"

text \<open>
  The state the monitor can change: the global \<^verbatim>\<open>CGA_COLOR_MASK\<close> and the console.
\<close>

record mstate =
  CGA_COLOR_MASK :: int16
  console :: "cout list"

text \<open>
  What monitor.c takes from the rest of the kernel: the constant \<^verbatim>\<open>FL_TF\<close> (inc/mmu.h),
  the frame pointer \<^verbatim>\<open>read_ebp()\<close> returns, memory as seen by a 4-byte load
  \<^verbatim>\<open>*(unsigned*)a\<close>, the resolver \<^verbatim>\<open>debuginfo_eip\<close> (its status and the structure it
  fills in), the linker symbols and \<^verbatim>\<open>KERNBASE\<close> that \<^verbatim>\<open>mon_kerninfo\<close> prints, and the
  macro \<^verbatim>\<open>ROUNDUP\<close> (inc/types.h).
\<close>

record machine =
  FL_TF :: u32
  read_ebp :: u32
  mem :: "u32 \<Rightarrow> u32"
  debuginfo_eip :: "u32 \<Rightarrow> int \<times> Eipdebuginfo"
  sym_start :: u32
  sym_entry :: u32
  sym_etext :: u32
  sym_edata :: u32
  sym_end :: u32
  KERNBASE :: u32
  ROUNDUP :: "int \<Rightarrow> int \<Rightarrow> int"

text \<open>
  Undefined behaviour of the C code is a value: a write to \<^verbatim>\<open>funn[i]\<close> with \<open>i\<close> outside
  \<open>0..99\<close>, or a read of a byte of \<^verbatim>\<open>funn\<close> that was never written.
\<close>

datatype error = OutOfBounds int | Indeterminate

text \<open>
  How a handler ends: it returns a status, or it calls \<^verbatim>\<open>env_pop_tf\<close> (which does not
  return) with a trap frame, or it runs into undefined behaviour. A handler that never
  ends has no outcome (\<open>None\<close>).
\<close>

datatype 'r outcome =
  Returned int mstate
| Resumed "'r Trapframe" mstate
| Fault error

type_synonym 'r handler =
  "machine \<Rightarrow> string list \<Rightarrow> 'r Trapframe option \<Rightarrow> mstate \<Rightarrow> 'r outcome option"

record 'r Command =
  name :: string
  desc :: string
  func :: "'r handler"

definition cprintf :: "string \<Rightarrow> cval list \<Rightarrow> mstate \<Rightarrow> mstate" where
  "cprintf fmt args s = s\<lparr>console := console s @ [Cprintf fmt args]\<rparr>"

subsection \<open>Basic commands\<close>

text \<open>
  The names and descriptions of \<^verbatim>\<open>commands[]\<close>, in the order of the table. The table
  itself (\<open>commands\<close>, below) adds the handlers; it is split because \<^verbatim>\<open>mon_help\<close> is both
  an entry of the table and a reader of it.
\<close>

definition command_text :: "(string \<times> string) list" where
  "command_text =
    [(''help'', ''Display this list of commands''),
     (''kerninfo'', ''Display information about the kernel''),
     (''backtrace'', ''Trace the stack and call hierarchy''),
     (''chcolor'', ''Change the default display color''),
     (''continue'', ''Continue from a breakpoint''),
     (''si'', ''Continue from a breakpoint with single step'')]"

definition mon_help :: "'r handler" where
  "mon_help m argv tf s =
     Some (Returned 0
       (fold (\<lambda>(n, d). cprintf ''%s - %s\<newline>'' [S n, S d]) command_text s))"

definition mon_kerninfo :: "'r handler" where
  "mon_kerninfo m argv tf s =
     (let s1 = cprintf ''Special kernel symbols:\<newline>'' [] s;
          s2 = cprintf ''  _start                  %08x (phys)\<newline>'' [U (sym_start m)] s1;
          s3 = cprintf ''  entry  %08x (virt)  %08x (phys)\<newline>''
                 [U (sym_entry m), U (sym_entry m - KERNBASE m)] s2;
          s4 = cprintf ''  etext  %08x (virt)  %08x (phys)\<newline>''
                 [U (sym_etext m), U (sym_etext m - KERNBASE m)] s3;
          s5 = cprintf ''  edata  %08x (virt)  %08x (phys)\<newline>''
                 [U (sym_edata m), U (sym_edata m - KERNBASE m)] s4;
          s6 = cprintf ''  end    %08x (virt)  %08x (phys)\<newline>''
                 [U (sym_end m), U (sym_end m - KERNBASE m)] s5;
          s7 = cprintf ''Kernel executable memory footprint: %dKB\<newline>''
                 [I (ROUNDUP m (sint (sym_end m - sym_entry m)) 1024 sdiv 1024)] s6
      in Some (Returned 0 s7))"

subsection \<open>chcolor\<close>

text \<open>The two \<^verbatim>\<open>switch\<close> statements of \<^verbatim>\<open>mon_chcolor\<close>.\<close>

definition bg_of :: "char \<Rightarrow> int16" where
  "bg_of c =
     (if c = CHR ''r'' then push_bit 6 1
      else if c = CHR ''g'' then push_bit 5 1
      else if c = CHR ''b'' then push_bit 4 1
      else if c = CHR ''w'' then 0x70
      else 0x00)"

definition ft_of :: "char \<Rightarrow> int16" where
  "ft_of c =
     (if c = CHR ''r'' then push_bit 2 1
      else if c = CHR ''g'' then push_bit 1 1
      else if c = CHR ''b'' then 1
      else if c = CHR ''w'' then 0x07
      else 0x00)"

text \<open>
  \<^verbatim>\<open>argc\<close> is the length of \<open>argv\<close>. \<^verbatim>\<open>(bg|ft)<<8\<close> is computed on \<^verbatim>\<open>int\<close> and stored into
  the 16-bit global. The last \<^verbatim>\<open>cprintf\<close> is outside the \<^verbatim>\<open>if\<close> chain: it runs on every
  path.
\<close>

definition mon_chcolor :: "'r handler" where
  "mon_chcolor m argv tf s =
     (let s1 =
        (if length argv \<noteq> 2 then cprintf ''Argument number error\<newline>'' [] s
         else if length (argv ! 1) \<noteq> 2 then cprintf ''Argument error'' [] s
         else
           (let bg = bg_of (argv ! 1 ! 0);
                ft = ft_of (argv ! 1 ! 1)
            in s\<lparr>CGA_COLOR_MASK := word_of_int (push_bit 8 (sint bg OR sint ft))\<rparr>))
      in Some (Returned 0 (cprintf ''Color changed\<newline>'' [] s1)))"

subsection \<open>continue and si\<close>

definition mon_continue :: "'r handler" where
  "mon_continue m argv tf s =
     (case tf of
        None \<Rightarrow> Some (Returned 0 (cprintf ''Not a breakpoint\<newline>'' [] s))
      | Some t \<Rightarrow>
          Some (Resumed (t\<lparr>tf_eflags := tf_eflags t AND NOT (FL_TF m)\<rparr>) s))"

definition mon_si :: "'r handler" where
  "mon_si m argv tf s =
     (case tf of
        None \<Rightarrow> Some (Returned 0 (cprintf ''Not a breakpoint\<newline>'' [] s))
      | Some t \<Rightarrow>
          (let s1 = cprintf ''Single Step\<newline>'' [] s
           in Some (Resumed (t\<lparr>tf_eflags := tf_eflags t OR FL_TF m\<rparr>) s1)))"

subsection \<open>backtrace\<close>

text \<open>
  \<^verbatim>\<open>char funn[100]\<close> is a list of 100 bytes, each \<open>None\<close> until it is written (the array is
  not initialised). \<open>funn_store\<close> is the assignment \<^verbatim>\<open>funn[i] = c\<close>: defined for \<open>i\<close> from 0 to
  99 only. \<open>copy_loop\<close> is the \<^verbatim>\<open>for\<close> loop of lines 77-78 from index \<open>i\<close> on, and
  \<open>copy_fn_name\<close> the loop followed by \<^verbatim>\<open>funn[info.eip_fn_namelen] = 0\<close>.
\<close>

definition funn_store :: "char option list \<Rightarrow> int \<Rightarrow> char \<Rightarrow> error + char option list" where
  "funn_store funn i c =
     (if 0 \<le> i \<and> i < 100 then Inr (funn[nat i := Some c]) else Inl (OutOfBounds i))"

function copy_loop :: "Eipdebuginfo \<Rightarrow> int \<Rightarrow> char option list \<Rightarrow> error + char option list" where
  "copy_loop info i funn =
     (if i < eip_fn_namelen info then
        (case funn_store funn i (eip_fn_name info (nat i)) of
           Inl e \<Rightarrow> Inl e
         | Inr funn' \<Rightarrow> copy_loop info (i + 1) funn')
      else Inr funn)"
  by pat_completeness auto
termination
  by (relation "measure (\<lambda>(info, i, funn). nat (eip_fn_namelen info - i))") auto

declare copy_loop.simps [simp del]

definition copy_fn_name :: "Eipdebuginfo \<Rightarrow> char option list \<Rightarrow> error + char option list" where
  "copy_fn_name info funn =
     (case copy_loop info 0 funn of
        Inl e \<Rightarrow> Inl e
      | Inr funn' \<Rightarrow> funn_store funn' (eip_fn_namelen info) (CHR 0x00))"

text \<open>
  What \<^verbatim>\<open>%s\<close> reads of \<^verbatim>\<open>funn\<close>: the bytes before the first NUL, from index \<open>i\<close> on.
\<close>

fun read_str :: "char option list \<Rightarrow> int \<Rightarrow> error + string" where
  "read_str [] i = Inl (OutOfBounds i)"
| "read_str (None # cs) i = Inl Indeterminate"
| "read_str (Some c # cs) i =
     (if c = CHR 0x00 then Inr []
      else (case read_str cs (i + 1) of Inl e \<Rightarrow> Inl e | Inr str \<Rightarrow> Inr (c # str)))"

text \<open>
  The \<^verbatim>\<open>while (ebp != 0)\<close> loop, with the loop variable \<^verbatim>\<open>ebp\<close>, the buffer \<^verbatim>\<open>funn\<close> (it
  lives across the iterations) and the state. The status \<^verbatim>\<open>debuginfo_eip\<close> returns is
  dropped, as in the source. Nothing bounds the loop: where it does not end, the result
  is \<open>None\<close>.
\<close>

partial_function (option) backtrace_loop ::
  "machine \<Rightarrow> u32 \<Rightarrow> char option list \<Rightarrow> mstate \<Rightarrow> (error + mstate) option" where
  "backtrace_loop m ebp funn s =
     (if ebp \<noteq> 0 then
        (let eip = mem m (ebp + 4);
             info = snd (debuginfo_eip m eip)
         in case copy_fn_name info funn of
              Inl e \<Rightarrow> Some (Inl e)
            | Inr funn' \<Rightarrow>
                (let s1 = cprintf ''  ebp %08x  eip %08x  args %08x %08x %08x %08x %08x\<newline>''
                            [U ebp, U (mem m (ebp + 4)), U (mem m (ebp + 8)), U (mem m (ebp + 12)),
                             U (mem m (ebp + 16)), U (mem m (ebp + 20)), U (mem m (ebp + 24))] s
                 in case read_str funn' 0 of
                      Inl e \<Rightarrow> Some (Inl e)
                    | Inr str \<Rightarrow>
                        (let s2 = cprintf ''         %s:%d: %s+%d\<newline>''
                                    [S (eip_file info), I (eip_line info), S str,
                                     U (eip - eip_fn_addr info)] s1
                         in backtrace_loop m (mem m ebp) funn' s2)))
      else Some (Inr s))"

definition mon_backtrace :: "'r handler" where
  "mon_backtrace m argv tf s =
     (let s0 = cprintf ''Stack backtrace:\<newline>'' [] s
      in case backtrace_loop m (read_ebp m) (replicate 100 None) s0 of
           None \<Rightarrow> None
         | Some (Inl e) \<Rightarrow> Some (Fault e)
         | Some (Inr s') \<Rightarrow> Some (Returned 0 s'))"

subsection \<open>The command interpreter\<close>

definition WHITESPACE :: string where
  "WHITESPACE = [CHR 0x09, CHR 0x0D, CHR 0x0A, CHR 0x20]"

definition MAXARGS :: nat where
  "MAXARGS = 16"

text \<open>
  The buffer is the list of the bytes before the terminating NUL, and \<^verbatim>\<open>buf\<close> an index
  into it: \<open>peek buf p\<close> is \<^verbatim>\<open>*buf\<close>, the terminator when \<open>p\<close> is the length of the list.
  \<open>gobble\<close> and \<open>scan\<close> are the two inner loops of \<^verbatim>\<open>runcmd\<close>, \<open>parse\<close> the outer one with
  \<^verbatim>\<open>argv\<close> as the list of the indices stored so far (\<^verbatim>\<open>argc\<close> is its length); \<open>None\<close> is
  the return on too many arguments. \<open>c_str buf p\<close> is the C string at index \<open>p\<close>.
\<close>

definition peek :: "string \<Rightarrow> nat \<Rightarrow> char" where
  "peek buf p = (if p < length buf then buf ! p else CHR 0x00)"

function gobble :: "string \<Rightarrow> nat \<Rightarrow> string \<times> nat" where
  "gobble buf p =
     (if peek buf p \<noteq> CHR 0x00 \<and> peek buf p \<in> set WHITESPACE
      then gobble (buf[p := CHR 0x00]) (p + 1)
      else (buf, p))"
  by pat_completeness auto
termination
  by (relation "measure (\<lambda>(buf, p). length buf - p)") (auto simp: peek_def split: if_splits)

declare gobble.simps [simp del]

function scan :: "string \<Rightarrow> nat \<Rightarrow> nat" where
  "scan buf p =
     (if peek buf p \<noteq> CHR 0x00 \<and> peek buf p \<notin> set WHITESPACE
      then scan buf (p + 1)
      else p)"
  by pat_completeness auto
termination
  by (relation "measure (\<lambda>(buf, p). length buf - p)") (auto simp: peek_def split: if_splits)

declare scan.simps [simp del]

function parse :: "string \<Rightarrow> nat \<Rightarrow> nat list \<Rightarrow> (string \<times> nat list) option" where
  "parse buf p argv =
     (case gobble buf p of
        (buf', p') \<Rightarrow>
          if peek buf' p' = CHR 0x00 then Some (buf', argv)
          else if length argv = MAXARGS - 1 then None
          else parse buf' (scan buf' p') (argv @ [p']))"
  by pat_completeness auto
termination
proof (relation "measure (\<lambda>(buf, p, argv). length buf - p)")
  show "wf (measure (\<lambda>(buf, p, argv). length buf - p))"
    by simp
next
  fix buf :: string and p :: nat and argv :: "nat list" and buf' :: string and p' :: nat
  assume g: "(buf', p') = gobble buf p" and nz: "peek buf' p' \<noteq> CHR 0x00"
  have gob: "length (fst (gobble b q)) = length b \<and> q \<le> snd (gobble b q)
      \<and> (peek (fst (gobble b q)) (snd (gobble b q)) = CHR 0x00
          \<or> peek (fst (gobble b q)) (snd (gobble b q)) \<notin> set WHITESPACE)" for b q
  proof (induction b q rule: gobble.induct)
    case (1 b q)
    show ?case
    proof (cases "peek b q \<noteq> CHR 0x00 \<and> peek b q \<in> set WHITESPACE")
      case True
      then have "gobble b q = gobble (b[q := CHR 0x00]) (q + 1)"
        by (subst gobble.simps) simp
      with "1.IH" True show ?thesis by auto
    next
      case False
      then have "gobble b q = (b, q)"
        by (subst gobble.simps) auto
      with False show ?thesis by auto
    qed
  qed
  have sc: "q \<le> scan b q" for b q
  proof (induction b q rule: scan.induct)
    case (1 b q)
    then show ?case by (subst scan.simps) auto
  qed
  from g have eq: "gobble buf p = (buf', p')" by simp
  from gob [of buf p] eq have len: "length buf' = length buf" and le: "p \<le> p'"
    and ws: "peek buf' p' = CHR 0x00 \<or> peek buf' p' \<notin> set WHITESPACE"
    by simp_all
  from nz have lt: "p' < length buf'" by (simp add: peek_def split: if_splits)
  from nz ws have "scan buf' p' = scan buf' (p' + 1)" by (subst scan.simps) simp
  with sc [of "p' + 1" buf'] have "p' < scan buf' p'" by simp
  with len le lt show "((buf', scan buf' p', argv @ [p']), buf, p, argv)
      \<in> measure (\<lambda>(buf, p, argv). length buf - p)"
    by simp
qed

declare parse.simps [simp del]

definition c_str :: "string \<Rightarrow> nat \<Rightarrow> string" where
  "c_str buf p = takeWhile (\<lambda>c. c \<noteq> CHR 0x00) (drop p buf)"

text \<open>
  \<^verbatim>\<open>commands[]\<close>: the texts above with the handlers, in the order of the source.
\<close>

definition commands :: "'r Command list" where
  "commands =
     map (\<lambda>((n, d), f). \<lparr>name = n, desc = d, func = f\<rparr>)
       (zip command_text
          [mon_help, mon_kerninfo, mon_backtrace, mon_chcolor, mon_continue, mon_si])"

text \<open>
  The lookup loop of \<^verbatim>\<open>runcmd\<close> over the table: the first entry whose name equals
  \<^verbatim>\<open>argv[0]\<close> (\<^verbatim>\<open>strcmp\<close> returns 0) is invoked; after the last entry the command is unknown.
\<close>

fun lookup :: "'r Command list \<Rightarrow> 'r handler" where
  "lookup [] m argv tf s =
     Some (Returned 0 (cprintf ''Unknown command '%s'\<newline>'' [S (argv ! 0)] s))"
| "lookup (c # cs) m argv tf s =
     (if argv ! 0 = name c then func c m argv tf s else lookup cs m argv tf s)"

text \<open>
  \<^verbatim>\<open>runcmd\<close>: \<open>buf\<close> is the line without its terminating NUL. The entries of \<^verbatim>\<open>argv\<close> are
  pointers into the buffer; the handler reads them as C strings in the buffer as the
  parser left it.
\<close>

definition runcmd :: "machine \<Rightarrow> string \<Rightarrow> 'r Trapframe option \<Rightarrow> mstate \<Rightarrow> 'r outcome option" where
  "runcmd m buf tf s =
     (case parse buf 0 [] of
        None \<Rightarrow> Some (Returned 0 (cprintf ''Too many arguments (max %d)\<newline>'' [I (int MAXARGS)] s))
      | Some (buf', argv) \<Rightarrow>
          if length argv = 0 then Some (Returned 0 s)
          else lookup commands m (map (c_str buf') argv) tf s)"

text \<open>
  The \<^verbatim>\<open>while (1)\<close> loop of \<^verbatim>\<open>monitor\<close>, run on the results of the successive calls of
  \<^verbatim>\<open>readline\<close> (\<open>None\<close> is \<^verbatim>\<open>NULL\<close>). When they are used up the monitor is waiting in
  \<^verbatim>\<open>readline\<close>; a negative status of \<^verbatim>\<open>runcmd\<close> breaks the loop; a handler that resumes
  the environment or faults ends it; a handler that never returns leaves no result.
\<close>

datatype 'r monitor_end =
  Reading mstate
| Broke mstate
| Away "'r Trapframe" mstate
| Crashed error

fun monitor_loop ::
  "machine \<Rightarrow> 'r Trapframe option \<Rightarrow> string option list \<Rightarrow> mstate \<Rightarrow> 'r monitor_end option" where
  "monitor_loop m tf [] s = Some (Reading s)"
| "monitor_loop m tf (None # bufs) s = monitor_loop m tf bufs s"
| "monitor_loop m tf (Some buf # bufs) s =
     (case runcmd m buf tf s of
        None \<Rightarrow> None
      | Some (Returned r s') \<Rightarrow> if r < 0 then Some (Broke s') else monitor_loop m tf bufs s'
      | Some (Resumed t s') \<Rightarrow> Some (Away t s')
      | Some (Fault e) \<Rightarrow> Some (Crashed e))"

subsection \<open>Reference notions used to state the properties\<close>

text \<open>
  The line a buffer holds is its content up to the first NUL. The tokens of a line, as
  the specification words them: the maximal runs of non-whitespace characters, in order.
  \<open>unwords\<close> writes tokens back into a line, one space between neighbours.
\<close>

definition line_of :: "string \<Rightarrow> string" where
  "line_of buf = takeWhile (\<lambda>c. c \<noteq> CHR 0x00) buf"

function tokens :: "string \<Rightarrow> string list" where
  "tokens [] = []"
| "tokens (c # cs) =
     (if c \<in> set WHITESPACE then tokens cs
      else (c # takeWhile (\<lambda>x. x \<notin> set WHITESPACE) cs)
           # tokens (dropWhile (\<lambda>x. x \<notin> set WHITESPACE) cs))"
  by pat_completeness auto
termination
  by (relation "measure length") (auto simp: le_imp_less_Suc length_dropWhile_le)

fun unwords :: "string list \<Rightarrow> string" where
  "unwords [] = []"
| "unwords [t] = t"
| "unwords (t # u # ts) = t @ CHR 0x20 # unwords (u # ts)"

text \<open>What the parser leaves of a character of the line: whitespace becomes NUL.\<close>

definition wipe :: "char \<Rightarrow> char" where
  "wipe c = (if c \<in> set WHITESPACE then CHR 0x00 else c)"

text \<open>
  A chain of linked frames: \<open>frame_chain ld fp fps\<close> says that \<open>fps\<close> are the frame pointers
  met from \<open>fp\<close> on, each non-zero, each holding the next one in the word it points to,
  the last one holding zero.
\<close>

fun frame_chain :: "(u32 \<Rightarrow> u32) \<Rightarrow> u32 \<Rightarrow> u32 list \<Rightarrow> bool" where
  "frame_chain ld fp [] = (fp = 0)"
| "frame_chain ld fp (f # fs) = (fp \<noteq> 0 \<and> f = fp \<and> frame_chain ld (ld fp) fs)"

text \<open>
  What the resolver reports for the return address of the frame at \<open>fp\<close>; whether the
  reported name and its NUL fit \<^verbatim>\<open>char funn[100]\<close>; the name as a C string; and the
  record expected for the frame: its two console lines.
\<close>

definition resolved :: "machine \<Rightarrow> u32 \<Rightarrow> Eipdebuginfo" where
  "resolved m fp = snd (debuginfo_eip m (mem m (fp + 4)))"

definition name_fits :: "machine \<Rightarrow> u32 \<Rightarrow> bool" where
  "name_fits m fp =
     (0 \<le> eip_fn_namelen (resolved m fp) \<and> eip_fn_namelen (resolved m fp) < 100)"

definition fn_name_str :: "Eipdebuginfo \<Rightarrow> string" where
  "fn_name_str info =
     takeWhile (\<lambda>c. c \<noteq> CHR 0x00) (map (eip_fn_name info) [0..<nat (eip_fn_namelen info)])"

definition frame_record :: "machine \<Rightarrow> u32 \<Rightarrow> cout list" where
  "frame_record m fp =
     [Cprintf ''  ebp %08x  eip %08x  args %08x %08x %08x %08x %08x\<newline>''
        [U fp, U (mem m (fp + 4)), U (mem m (fp + 8)), U (mem m (fp + 12)),
         U (mem m (fp + 16)), U (mem m (fp + 20)), U (mem m (fp + 24))],
      Cprintf ''         %s:%d: %s+%d\<newline>''
        [S (eip_file (resolved m fp)), I (eip_line (resolved m fp)),
         S (fn_name_str (resolved m fp)),
         U (mem m (fp + 4) - eip_fn_addr (resolved m fp))]]"

subsection \<open>Concrete machines\<close>

text \<open>
  A small machine to run the commands on: two stack frames at \<open>0xf010ff18\<close> and
  \<open>0xf010ff38\<close>, a resolver that knows one return address and reports the placeholder
  \<^verbatim>\<open><unknown>\<close> with a negative status for every other one.
\<close>

definition bytes_of :: "string \<Rightarrow> nat \<Rightarrow> char" where
  "bytes_of str i = (if i < length str then str ! i else CHR 0x00)"

definition demo_resolver :: "u32 \<Rightarrow> int \<times> Eipdebuginfo" where
  "demo_resolver eip =
     (if eip = 0xf0100068 then
        (0, \<lparr>eip_file = ''kern/init.c'', eip_line = 24,
             eip_fn_name = bytes_of ''test_backtrace:F(0,1)'', eip_fn_namelen = 14,
             eip_fn_addr = 0xf0100040, eip_fn_narg = 1\<rparr>)
      else
        (- 1, \<lparr>eip_file = ''<unknown>'', eip_line = 0,
               eip_fn_name = bytes_of ''<unknown>'', eip_fn_namelen = 9,
               eip_fn_addr = eip, eip_fn_narg = 0\<rparr>))"

definition demo_mem :: "u32 \<Rightarrow> u32" where
  "demo_mem a =
     (if a = 0xf010ff18 then 0xf010ff38
      else if a = 0xf010ff1c then 0xf0100068
      else if a = 0xf010ff20 then 5
      else if a = 0xf010ff38 then 0
      else if a = 0xf010ff3c then 0xf010003e
      else 0)"

definition demo_machine :: machine where
  "demo_machine =
     \<lparr>FL_TF = 0x100, read_ebp = 0xf010ff18, mem = demo_mem, debuginfo_eip = demo_resolver,
      sym_start = 0x0010000c, sym_entry = 0xf010000c, sym_etext = 0xf0101a75,
      sym_edata = 0xf0112300, sym_end = 0xf0112960, KERNBASE = 0xf0000000,
      ROUNDUP = (\<lambda>a n. (a + n - 1) div n * n)\<rparr>"

text \<open>A frame whose saved frame pointer is its own address, and two frames saving each other.\<close>

definition self_linked_machine :: machine where
  "self_linked_machine =
     demo_machine\<lparr>mem := (\<lambda>a. if a = 0xf010ff18 then 0xf010ff18 else 0)\<rparr>"

definition two_cycle_machine :: machine where
  "two_cycle_machine =
     demo_machine\<lparr>mem := (\<lambda>a. if a = 0xf010ff18 then 0xf010ff38
                              else if a = 0xf010ff38 then 0xf010ff18 else 0)\<rparr>"

text \<open>A resolver that reports a function name of 100 characters.\<close>

definition long_name_machine :: machine where
  "long_name_machine =
     demo_machine\<lparr>debuginfo_eip :=
       (\<lambda>eip. (0, \<lparr>eip_file = ''user/hello.c'', eip_line = 7,
                     eip_fn_name = (\<lambda>i. CHR ''a''), eip_fn_namelen = 100,
                     eip_fn_addr = eip, eip_fn_narg = 0\<rparr>))\<rparr>"

definition demo_state :: mstate where
  "demo_state = \<lparr>CGA_COLOR_MASK = 0x0700, console = []\<rparr>"

definition demo_tf :: "unit Trapframe" where
  "demo_tf = \<lparr>tf_eflags = 0x00000246, tf_other = ()\<rparr>"

subsection \<open>The name copy of the backtrace\<close>

lemma funn_store_ok:
  "0 \<le> i \<Longrightarrow> i < 100 \<Longrightarrow> funn_store funn i c = Inr (funn[nat i := Some c])"
  by (simp add: funn_store_def)

lemma copy_loop_fits:
  "0 \<le> i \<Longrightarrow> i \<le> eip_fn_namelen info \<Longrightarrow> eip_fn_namelen info \<le> 100
   \<Longrightarrow> nat (eip_fn_namelen info) \<le> length funn
   \<Longrightarrow> copy_loop info i funn =
       Inr (take (nat i) funn
            @ map (\<lambda>k. Some (eip_fn_name info k)) [nat i..<nat (eip_fn_namelen info)]
            @ drop (nat (eip_fn_namelen info)) funn)"
proof (induction info i funn rule: copy_loop.induct)
  case (1 info i funn)
  show ?case
  proof (cases "i < eip_fn_namelen info")
    case False
    with "1.prems" have "i = eip_fn_namelen info" by simp
    then show ?thesis by (subst copy_loop.simps) simp
  next
    case True
    let ?c = "eip_fn_name info (nat i)"
    let ?f = "funn[nat i := Some ?c]"
    from True "1.prems" have st: "funn_store funn i ?c = Inr ?f"
      by (simp add: funn_store_ok)
    from True "1.prems" have lt: "nat i < length funn" by linarith
    have IH: "copy_loop info (i + 1) ?f =
       Inr (take (nat (i + 1)) ?f
            @ map (\<lambda>k. Some (eip_fn_name info k)) [nat (i + 1)..<nat (eip_fn_namelen info)]
            @ drop (nat (eip_fn_namelen info)) ?f)"
      using True "1.prems" by (intro "1.IH" [OF True st]) simp_all
    have n1: "nat (i + 1) = Suc (nat i)" using "1.prems" by simp
    have a: "take (Suc (nat i)) ?f = take (nat i) funn @ [Some ?c]"
      using lt by (simp add: take_Suc_conv_app_nth)
    have b: "drop (nat (eip_fn_namelen info)) ?f = drop (nat (eip_fn_namelen info)) funn"
      using True "1.prems" by simp
    have c: "[nat i..<nat (eip_fn_namelen info)] = nat i # [Suc (nat i)..<nat (eip_fn_namelen info)]"
      using True "1.prems" by (simp add: upt_conv_Cons)
    have "copy_loop info i funn = copy_loop info (i + 1) ?f"
      using True st by (subst copy_loop.simps) simp
    with IH show ?thesis by (simp add: n1 a b c)
  qed
qed

lemma copy_fn_name_fits:
  assumes "0 \<le> eip_fn_namelen info" "eip_fn_namelen info < 100" "length funn = 100"
  shows "copy_fn_name info funn =
     Inr (map (\<lambda>k. Some (eip_fn_name info k)) [0..<nat (eip_fn_namelen info)]
          @ Some (CHR 0x00) # drop (Suc (nat (eip_fn_namelen info))) funn)"
proof -
  let ?n = "nat (eip_fn_namelen info)"
  let ?xs = "map (\<lambda>k. Some (eip_fn_name info k)) [0..<?n]"
  from assms have lt: "?n < length funn" by simp
  from assms have "copy_loop info 0 funn = Inr (?xs @ drop ?n funn)"
    using copy_loop_fits [of 0 info funn] by simp
  moreover have "(?xs @ drop ?n funn)[?n := Some (CHR 0x00)]
      = ?xs @ Some (CHR 0x00) # drop (Suc ?n) funn"
    using lt by (simp add: list_update_append Cons_nth_drop_Suc [symmetric] )
  ultimately show ?thesis
    using assms by (simp add: copy_fn_name_def funn_store_ok)
qed

lemma read_str_terminated:
  "read_str (map Some xs @ Some (CHR 0x00) # rest) i = Inr (takeWhile (\<lambda>c. c \<noteq> CHR 0x00) xs)"
  by (induction xs arbitrary: i) simp_all

lemma copy_loop_overflow:
  "0 \<le> i \<Longrightarrow> i \<le> 100 \<Longrightarrow> 100 < eip_fn_namelen info
   \<Longrightarrow> copy_loop info i funn = Inl (OutOfBounds 100)"
proof (induction info i funn rule: copy_loop.induct)
  case (1 info i funn)
  show ?case
  proof (cases "i < 100")
    case True
    let ?f = "funn[nat i := Some (eip_fn_name info (nat i))]"
    from True "1.prems" have st: "funn_store funn i (eip_fn_name info (nat i)) = Inr ?f"
      by (simp add: funn_store_ok)
    from True "1.prems" have lt: "i < eip_fn_namelen info" by simp
    have "copy_loop info (i + 1) ?f = Inl (OutOfBounds 100)"
      using True "1.prems" by (intro "1.IH" [OF lt st]) simp_all
    moreover have "copy_loop info i funn = copy_loop info (i + 1) ?f"
      using lt st by (subst copy_loop.simps) simp
    ultimately show ?thesis by simp
  next
    case False
    with "1.prems" have "i = 100" by simp
    with "1.prems" show ?thesis
      by (subst copy_loop.simps) (simp add: funn_store_def)
  qed
qed

lemma copy_fn_name_overflow:
  assumes "100 \<le> eip_fn_namelen info" and "length funn = 100"
  shows "copy_fn_name info funn = Inl (OutOfBounds 100)"
proof (cases "eip_fn_namelen info = 100")
  case True
  then have "copy_loop info 0 funn =
       Inr (take (nat 0) funn
            @ map (\<lambda>k. Some (eip_fn_name info k)) [nat 0..<nat (eip_fn_namelen info)]
            @ drop (nat (eip_fn_namelen info)) funn)"
    using assms by (intro copy_loop_fits) simp_all
  with True show ?thesis by (simp add: copy_fn_name_def funn_store_def)
next
  case False
  with assms have "100 < eip_fn_namelen info" by simp
  then have "copy_loop info 0 funn = Inl (OutOfBounds 100)"
    by (intro copy_loop_overflow) simp_all
  then show ?thesis by (simp add: copy_fn_name_def)
qed

lemma copy_fn_name_negative:
  assumes "eip_fn_namelen info < 0"
  shows "copy_fn_name info funn = Inl (OutOfBounds (eip_fn_namelen info))"
proof -
  from assms have "copy_loop info 0 funn = Inr funn"
    by (subst copy_loop.simps) simp
  with assms show ?thesis by (simp add: copy_fn_name_def funn_store_def)
qed


lemma copy_fn_name_length:
  "copy_fn_name info funn = Inr funn' \<Longrightarrow> length funn = 100 \<Longrightarrow> length funn' = 100"
proof -
  assume c: "copy_fn_name info funn = Inr funn'" and l: "length funn = 100"
  have fits: "0 \<le> eip_fn_namelen info \<and> eip_fn_namelen info < 100"
  proof (rule ccontr)
    assume "\<not> ?thesis"
    then consider "eip_fn_namelen info < 0" | "100 \<le> eip_fn_namelen info" by linarith
    then show False
      using c l copy_fn_name_negative [of info funn] copy_fn_name_overflow [of info funn]
      by cases simp_all
  qed
  with c l show ?thesis
    using copy_fn_name_fits [of info funn] by auto
qed

lemma backtrace_loop_chain:
  "frame_chain (mem m) ebp fps \<Longrightarrow> \<forall>fp\<in>set fps. name_fits m fp \<Longrightarrow> length funn = 100
   \<Longrightarrow> backtrace_loop m ebp funn s =
       Some (Inr (s\<lparr>console := console s @ concat (map (frame_record m) fps)\<rparr>))"
proof (induction fps arbitrary: ebp funn s)
  case Nil
  then show ?case by (subst backtrace_loop.simps) simp
next
  case (Cons f fs)
  let ?info = "resolved m ebp"
  let ?funn' = "map (\<lambda>k. Some (eip_fn_name ?info k)) [0..<nat (eip_fn_namelen ?info)]
          @ Some (CHR 0x00) # drop (Suc (nat (eip_fn_namelen ?info))) funn"
  from Cons.prems have nz: "ebp \<noteq> 0" and f: "f = ebp"
    and ch: "frame_chain (mem m) (mem m ebp) fs" by simp_all
  from Cons.prems f have fit: "name_fits m ebp" by simp
  then have cp: "copy_fn_name ?info funn = Inr ?funn'"
    using Cons.prems(3) by (intro copy_fn_name_fits) (simp_all add: name_fits_def)
  have rd: "read_str ?funn' 0 = Inr (fn_name_str ?info)"
    using read_str_terminated
      [of "map (eip_fn_name ?info) [0..<nat (eip_fn_namelen ?info)]" _ 0]
    by (simp add: fn_name_str_def comp_def)
  have len: "length ?funn' = 100"
    using cp Cons.prems(3) by (rule copy_fn_name_length)
  have IH: "backtrace_loop m (mem m ebp) ?funn' s2 =
       Some (Inr (s2\<lparr>console := console s2 @ concat (map (frame_record m) fs)\<rparr>))" for s2
    using ch Cons.prems(2) len by (intro Cons.IH) simp_all
  show ?case
    using nz cp rd
    by (subst backtrace_loop.simps)
       (simp add: Let_def resolved_def [symmetric] IH f frame_record_def cprintf_def)
qed

lemma backtrace_loop_Some:
  "backtrace_loop m ebp funn s = Some r \<Longrightarrow> length funn = 100
   \<Longrightarrow> \<exists>n. (mem m ^^ n) ebp = 0 \<or> \<not> name_fits m ((mem m ^^ n) ebp)"
proof (induction m ebp funn s r rule: backtrace_loop.raw_induct [rotated 1, consumes 1, case_names step])
  case (step loop m ebp funn s r)
  show ?case
  proof (cases "ebp = 0")
    case True
    then have "(mem m ^^ 0) ebp = 0" by simp
    then show ?thesis by blast
  next
    case nz: False
    show ?thesis
    proof (cases "name_fits m ebp")
      case False
      then have "\<not> name_fits m ((mem m ^^ 0) ebp)" by simp
      then show ?thesis by blast
    next
      case True
      let ?info = "resolved m ebp"
      let ?funn' = "map (\<lambda>k. Some (eip_fn_name ?info k)) [0..<nat (eip_fn_namelen ?info)]
          @ Some (CHR 0x00) # drop (Suc (nat (eip_fn_namelen ?info))) funn"
      from True have cp: "copy_fn_name ?info funn = Inr ?funn'"
        using step.prems by (intro copy_fn_name_fits) (simp_all add: name_fits_def)
      have rd: "read_str ?funn' 0 = Inr (fn_name_str ?info)"
        using read_str_terminated
          [of "map (eip_fn_name ?info) [0..<nat (eip_fn_namelen ?info)]" _ 0]
        by (simp add: fn_name_str_def comp_def)
      have len: "length ?funn' = 100"
        using cp step.prems by (rule copy_fn_name_length)
      from step.hyps nz cp rd obtain s2 where "loop m (mem m ebp) ?funn' s2 = Some r"
        by (simp add: Let_def resolved_def [symmetric])
      from step.IH [OF this len] obtain n
        where "(mem m ^^ n) (mem m ebp) = 0 \<or> \<not> name_fits m ((mem m ^^ n) (mem m ebp))"
        by blast
      then have "(mem m ^^ Suc n) ebp = 0 \<or> \<not> name_fits m ((mem m ^^ Suc n) ebp)"
        by (simp add: funpow_swap1)
      then show ?thesis by blast
    qed
  qed
qed

lemma backtrace_loop_overflow:
  assumes "ebp \<noteq> 0" and "100 \<le> eip_fn_namelen (resolved m ebp)"
  shows "backtrace_loop m ebp (replicate 100 None) s = Some (Inl (OutOfBounds 100))"
proof -
  have "copy_fn_name (resolved m ebp) (replicate 100 None) = Inl (OutOfBounds 100)"
    using assms(2) by (intro copy_fn_name_overflow) simp_all
  then show ?thesis
    using assms(1) by (subst backtrace_loop.simps) (simp add: Let_def resolved_def)
qed

subsection \<open>The parser\<close>

lemma NUL_not_WHITESPACE: "CHR 0x00 \<notin> set WHITESPACE"
  by (simp add: WHITESPACE_def)

lemma peek_append: "peek (pre @ c # cs) (length pre) = c"
  by (simp add: peek_def)

lemma peek_end: "suf = [] \<or> hd suf = CHR 0x00 \<Longrightarrow> peek (pre @ suf) (length pre) = CHR 0x00"
  by (cases suf) (auto simp: peek_def)

lemma gobble_stop:
  "peek b p = CHR 0x00 \<or> peek b p \<notin> set WHITESPACE \<Longrightarrow> gobble b p = (b, p)"
  by (subst gobble.simps) auto

lemma gobble_step:
  "c \<in> set WHITESPACE \<Longrightarrow>
   gobble (pre @ c # cs) (length pre) = gobble ((pre @ [CHR 0x00]) @ cs) (length (pre @ [CHR 0x00]))"
  using NUL_not_WHITESPACE
  by (subst gobble.simps) (auto simp: peek_append)

lemma parse_gobble_cong:
  "gobble b p = gobble b' p' \<Longrightarrow> parse b p argv = parse b' p' argv"
  by (subst parse.simps, subst (2) parse.simps) simp

lemma scan_token:
  "\<forall>c\<in>set tok. c \<noteq> CHR 0x00 \<and> c \<notin> set WHITESPACE
   \<Longrightarrow> suf = [] \<or> hd suf = CHR 0x00 \<or> hd suf \<in> set WHITESPACE
   \<Longrightarrow> scan (pre @ tok @ suf) (length pre) = length pre + length tok"
proof (induction tok arbitrary: pre)
  case Nil
  then have "peek (pre @ suf) (length pre) = CHR 0x00 \<or> peek (pre @ suf) (length pre) \<in> set WHITESPACE"
    by (cases suf) (auto simp: peek_def)
  then show ?case by (subst scan.simps) auto
next
  case (Cons c tok)
  from Cons.prems have "scan ((pre @ [c]) @ tok @ suf) (length (pre @ [c])) = length (pre @ [c]) + length tok"
    by (intro Cons.IH) simp_all
  moreover from Cons.prems have "scan (pre @ (c # tok) @ suf) (length pre) = scan (pre @ (c # tok) @ suf) (length pre + 1)"
    by (subst scan.simps) (simp add: peek_append)
  ultimately show ?case by simp
qed


lemma c_str_token:
  assumes tok: "\<forall>c\<in>set tok. c \<noteq> CHR 0x00"
    and suf: "suf = [] \<or> hd suf = CHR 0x00"
  shows "c_str (pre @ tok @ suf) (length pre) = tok"
proof -
  have "takeWhile (\<lambda>c. c \<noteq> CHR 0x00) (tok @ suf) = tok"
    using tok suf by (cases suf) (auto simp: takeWhile_append2 takeWhile_eq_all_conv)
  then show ?thesis by (simp add: c_str_def)
qed

lemma parse_tokens:
  "CHR 0x00 \<notin> set rest \<Longrightarrow> suf = [] \<or> hd suf = CHR 0x00 \<Longrightarrow> length argv \<le> MAXARGS - 1 \<Longrightarrow>
   (length argv + length (tokens rest) \<le> MAXARGS - 1 \<longrightarrow>
      (\<exists>st. parse (pre @ rest @ suf) (length pre) argv
               = Some (pre @ map wipe rest @ suf, argv @ st)
            \<and> map (c_str (pre @ map wipe rest @ suf)) st = tokens rest))
   \<and> (MAXARGS - 1 < length argv + length (tokens rest) \<longrightarrow>
        parse (pre @ rest @ suf) (length pre) argv = None)"
proof (induction rest arbitrary: pre argv rule: tokens.induct)
  case 1
  from "1.prems" have pk: "peek (pre @ suf) (length pre) = CHR 0x00"
    by (simp add: peek_end)
  then have "gobble (pre @ suf) (length pre) = (pre @ suf, length pre)"
    by (simp add: gobble_stop)
  with pk have "parse (pre @ suf) (length pre) argv = Some (pre @ suf, argv)"
    by (subst parse.simps) simp
  with "1.prems" show ?case by simp
next
  case (2 c cs)
  let ?P = "\<lambda>x. x \<notin> set WHITESPACE"
  show ?case
  proof (cases "c \<in> set WHITESPACE")
    case True
    have eq: "parse (pre @ (c # cs) @ suf) (length pre) argv
        = parse ((pre @ [CHR 0x00]) @ cs @ suf) (length (pre @ [CHR 0x00])) argv"
      using gobble_step [OF True, of pre "cs @ suf"] by (intro parse_gobble_cong) simp
    have fin: "pre @ map wipe (c # cs) @ suf = (pre @ [CHR 0x00]) @ map wipe cs @ suf"
      using True by (simp add: wipe_def)
    from "2.prems" have p: "CHR 0x00 \<notin> set cs" by simp
    show ?thesis
      unfolding eq fin
      using "2.IH"(1) [OF True p "2.prems"(2,3), of "pre @ [CHR 0x00]"] True
      by simp
  next
    case False
    let ?tok = "c # takeWhile ?P cs"
    let ?rest2 = "dropWhile ?P cs"
    let ?b = "pre @ (c # cs) @ suf"
    from "2.prems" have cz: "c \<noteq> CHR 0x00" and csz: "CHR 0x00 \<notin> set cs" by auto
    have split: "c # cs = ?tok @ ?rest2" by simp
    have tokP: "\<forall>x\<in>set ?tok. x \<noteq> CHR 0x00 \<and> x \<notin> set WHITESPACE"
      using False cz csz by (auto dest: set_takeWhileD)
    have r2z: "CHR 0x00 \<notin> set ?rest2"
      using csz by (auto dest: set_dropWhileD)
    have hd2: "?rest2 = [] \<or> hd ?rest2 \<in> set WHITESPACE"
      using hd_dropWhile [of ?P cs] by auto
    have suf2: "?rest2 @ suf = [] \<or> hd (?rest2 @ suf) = CHR 0x00 \<or> hd (?rest2 @ suf) \<in> set WHITESPACE"
    proof (cases "?rest2 = []")
      case True
      show ?thesis unfolding True using "2.prems"(2) by auto
    next
      case False
      with hd2 show ?thesis by (auto simp: hd_append)
    qed
    have td: "takeWhile ?P cs @ ?rest2 @ suf = cs @ suf"
      by (simp only: append_assoc [symmetric] takeWhile_dropWhile_id)
    have b_eq: "?b = pre @ ?tok @ (?rest2 @ suf)"
      by (simp add: td)
    have sc: "scan ?b (length pre) = length (pre @ ?tok)"
      unfolding b_eq using scan_token [OF tokP suf2, of pre] by simp
    have pk: "peek ?b (length pre) = c"
      by (simp add: peek_append)
    have gb: "gobble ?b (length pre) = (?b, length pre)"
      using False pk by (intro gobble_stop) simp
    have tk: "tokens (c # cs) = ?tok # tokens ?rest2"
      using False by simp
    show ?thesis
    proof (cases "length argv = MAXARGS - 1")
      case True
      then have "parse ?b (length pre) argv = None"
        using gb pk cz by (subst parse.simps) simp
      with True tk show ?thesis by simp
    next
      case short: False
      with "2.prems" have len': "length (argv @ [length pre]) \<le> MAXARGS - 1" by simp
      have step: "parse ?b (length pre) argv
          = parse ((pre @ ?tok) @ ?rest2 @ suf) (length (pre @ ?tok)) (argv @ [length pre])"
        using gb pk cz short sc by (subst parse.simps) (simp add: td)
      have fin: "pre @ map wipe (c # cs) @ suf = (pre @ ?tok) @ map wipe ?rest2 @ suf"
      proof -
        have "map wipe ?tok = ?tok"
          using tokP by (intro map_idI) (auto simp: wipe_def)
        moreover have "map wipe (c # cs) = map wipe ?tok @ map wipe ?rest2"
          by (subst split) (simp only: map_append)
        ultimately show ?thesis by simp
      qed
      have wz: "map wipe ?rest2 @ suf = [] \<or> hd (map wipe ?rest2 @ suf) = CHR 0x00"
      proof (cases "?rest2 = []")
        case True
        show ?thesis unfolding True using "2.prems"(2) by simp
      next
        case False
        with hd2 have "hd (map wipe ?rest2) = CHR 0x00"
          by (auto simp: hd_map wipe_def)
        with False show ?thesis by (auto simp: hd_append)
      qed
      have tokz: "\<forall>x\<in>set ?tok. x \<noteq> CHR 0x00" using tokP by blast
      have first: "c_str (pre @ ?tok @ (map wipe ?rest2 @ suf)) (length pre) = ?tok"
        using tokz wz by (rule c_str_token)
      note IH = "2.IH"(2) [OF False r2z "2.prems"(2) len', of "pre @ ?tok"]
      show ?thesis
      proof (intro conjI impI)
        assume "length argv + length (tokens (c # cs)) \<le> MAXARGS - 1"
        with tk have "length (argv @ [length pre]) + length (tokens ?rest2) \<le> MAXARGS - 1"
          by simp
        with IH obtain st where
          st: "parse ((pre @ ?tok) @ ?rest2 @ suf) (length (pre @ ?tok)) (argv @ [length pre])
                 = Some ((pre @ ?tok) @ map wipe ?rest2 @ suf, (argv @ [length pre]) @ st)"
            "map (c_str ((pre @ ?tok) @ map wipe ?rest2 @ suf)) st = tokens ?rest2"
          by blast
        have "parse ?b (length pre) argv
               = Some (pre @ map wipe (c # cs) @ suf, argv @ (length pre # st))"
          unfolding step fin using st(1) by simp
        moreover have "map (c_str (pre @ map wipe (c # cs) @ suf)) (length pre # st) = tokens (c # cs)"
          unfolding fin tk using st(2) first by simp
        ultimately show "\<exists>st. parse ?b (length pre) argv
               = Some (pre @ map wipe (c # cs) @ suf, argv @ st)
            \<and> map (c_str (pre @ map wipe (c # cs) @ suf)) st = tokens (c # cs)"
          by blast
      next
        assume "MAXARGS - 1 < length argv + length (tokens (c # cs))"
        with tk have "MAXARGS - 1 < length (argv @ [length pre]) + length (tokens ?rest2)"
          by simp
        with IH show "parse ?b (length pre) argv = None"
          unfolding step by blast
      qed
    qed
  qed
qed

lemma parse_line:
  "(length (tokens (line_of buf)) \<le> MAXARGS - 1 \<longrightarrow>
      (\<exists>buf' argv. parse buf 0 [] = Some (buf', argv)
          \<and> map (c_str buf') argv = tokens (line_of buf)))
   \<and> (MAXARGS - 1 < length (tokens (line_of buf)) \<longrightarrow> parse buf 0 [] = None)"
proof -
  let ?Z = "\<lambda>c. c \<noteq> CHR 0x00"
  have nz: "CHR 0x00 \<notin> set (takeWhile ?Z buf)"
    by (auto dest: set_takeWhileD)
  have suf: "dropWhile ?Z buf = [] \<or> hd (dropWhile ?Z buf) = CHR 0x00"
    using hd_dropWhile [of ?Z buf] by auto
  have "length ([] :: nat list) \<le> MAXARGS - 1" by simp
  from parse_tokens [OF nz suf this, of "[]"] show ?thesis
    by (simp add: line_of_def) blast
qed

lemma tokens_append:
  assumes "t \<noteq> []" and "\<forall>c\<in>set t. c \<notin> set WHITESPACE"
    and "rest = [] \<or> hd rest \<in> set WHITESPACE"
  shows "tokens (t @ rest) = t # tokens rest"
proof -
  let ?P = "\<lambda>x. x \<notin> set WHITESPACE"
  from assms(1) obtain c t' where t: "t = c # t'" by (cases t) auto
  with assms(2) have c: "c \<notin> set WHITESPACE" and t': "\<forall>x\<in>set t'. ?P x" by auto
  have tw: "takeWhile ?P (t' @ rest) = t'"
    using t' assms(3) by (cases rest) (auto simp: takeWhile_append2)
  have dw: "dropWhile ?P (t' @ rest) = rest"
    using t' assms(3) by (cases rest) (auto simp: dropWhile_append2)
  show ?thesis using c by (simp add: t tw dw)
qed

lemma tokens_unwords:
  "\<forall>t\<in>set ts. t \<noteq> [] \<and> (\<forall>c\<in>set t. c \<notin> set WHITESPACE) \<Longrightarrow> tokens (unwords ts) = ts"
proof (induction ts rule: unwords.induct)
  case 1
  then show ?case by simp
next
  case (2 t)
  then show ?case using tokens_append [of t "[]"] by simp
next
  case (3 t u ts)
  have sp: "CHR 0x20 \<in> set WHITESPACE" by (simp add: WHITESPACE_def)
  from 3 have "tokens (unwords (u # ts)) = u # ts" by simp
  moreover from 3 sp have "tokens (t @ CHR 0x20 # unwords (u # ts)) = t # tokens (CHR 0x20 # unwords (u # ts))"
    by (intro tokens_append) simp_all
  ultimately show ?case using sp by simp
qed

lemma set_unwords: "set (unwords ts) \<subseteq> insert (CHR 0x20) (\<Union>t\<in>set ts. set t)"
  by (induction ts rule: unwords.induct) auto

lemma line_of_unwords:
  "\<forall>t\<in>set ts. \<forall>c\<in>set t. c \<noteq> CHR 0x00 \<Longrightarrow> line_of (unwords ts) = unwords ts"
  unfolding line_of_def using set_unwords [of ts]
  by (intro takeWhile_eq_all_conv [THEN iffD2]) auto

subsection \<open>Dispatch of single commands\<close>

lemma runcmd_continue: "runcmd m ''continue'' tf s = mon_continue m [''continue''] tf s"
  by (simp add: runcmd_def parse.simps gobble.simps scan.simps peek_def WHITESPACE_def
      MAXARGS_def c_str_def commands_def command_text_def)

lemma runcmd_si: "runcmd m ''si'' tf s = mon_si m [''si''] tf s"
  by (simp add: runcmd_def parse.simps gobble.simps scan.simps peek_def WHITESPACE_def
      MAXARGS_def c_str_def commands_def command_text_def)

lemma runcmd_chcolor_rg: "runcmd m ''chcolor rg'' tf s = mon_chcolor m [''chcolor'', ''rg''] tf s"
  by (simp add: runcmd_def parse.simps gobble.simps scan.simps peek_def WHITESPACE_def
      MAXARGS_def c_str_def commands_def command_text_def)

lemma runcmd_chcolor_xx: "runcmd m ''chcolor xx'' tf s = mon_chcolor m [''chcolor'', ''xx''] tf s"
  by (simp add: runcmd_def parse.simps gobble.simps scan.simps peek_def WHITESPACE_def
      MAXARGS_def c_str_def commands_def command_text_def)

subsection \<open>The concrete machines\<close>

lemma self_linked_iter: "(mem self_linked_machine ^^ n) 0xf010ff18 = 0xf010ff18"
  by (induction n) (simp_all add: self_linked_machine_def)

lemma self_linked_fits: "name_fits self_linked_machine 0xf010ff18"
  by (simp add: name_fits_def resolved_def self_linked_machine_def demo_machine_def
      demo_resolver_def)

section \<open>The properties\<close>

subsection \<open>Backtrace\<close>

text \<open>
  C1, as the code has it. For every chain of N linked frames that starts at the current
  frame pointer and ends in a zero frame pointer, and for which the resolver reports for
  each frame a name length from 0 to 99 (the lengths for which the unchecked copy of the
  name stays inside \<^verbatim>\<open>funn\<close>), \<^verbatim>\<open>mon_backtrace\<close> returns 0 after printing the header and
  exactly N frame records, innermost first. Each record carries the frame pointer, the return
  address in the word above it, the five words above that, and what the resolver
  reported for the return address, whatever its status (file, line, function name and
  the offset of the return address in the function). The walk goes from a frame to the
  frame pointer saved in the word it points to.
\<close>

theorem backtrace_emits_chain:
  assumes "frame_chain (mem m) (read_ebp m) fps"
    and "\<forall>fp\<in>set fps. name_fits m fp"
  shows "mon_backtrace m argv tf s =
     Some (Returned 0
       (s\<lparr>console := console s @ Cprintf ''Stack backtrace:\<newline>'' []
                        # concat (map (frame_record m) fps)\<rparr>))
     \<and> length (map (frame_record m) fps) = length fps"
proof -
  have "backtrace_loop m (read_ebp m) (replicate 100 None) (cprintf ''Stack backtrace:\<newline>'' [] s)
     = Some (Inr ((cprintf ''Stack backtrace:\<newline>'' [] s)
          \<lparr>console := console (cprintf ''Stack backtrace:\<newline>'' [] s)
                        @ concat (map (frame_record m) fps)\<rparr>))"
    using assms by (intro backtrace_loop_chain) simp_all
  then show ?thesis by (simp add: mon_backtrace_def cprintf_def)
qed

theorem backtrace_emits_chain_witness:
  "frame_chain (mem demo_machine) (read_ebp demo_machine) [0xf010ff18, 0xf010ff38]
   \<and> name_fits demo_machine 0xf010ff18 \<and> name_fits demo_machine 0xf010ff38
   \<and> mon_backtrace demo_machine [''backtrace''] (None :: unit Trapframe option) demo_state =
     Some (Returned 0
       (demo_state\<lparr>console :=
          [Cprintf ''Stack backtrace:\<newline>'' [],
           Cprintf ''  ebp %08x  eip %08x  args %08x %08x %08x %08x %08x\<newline>''
             [U 0xf010ff18, U 0xf0100068, U 5, U 0, U 0, U 0, U 0],
           Cprintf ''         %s:%d: %s+%d\<newline>''
             [S ''kern/init.c'', I 24, S ''test_backtrace'', U 0x28],
           Cprintf ''  ebp %08x  eip %08x  args %08x %08x %08x %08x %08x\<newline>''
             [U 0xf010ff38, U 0xf010003e, U 0, U 0, U 0, U 0, U 0],
           Cprintf ''         %s:%d: %s+%d\<newline>''
             [S ''<unknown>'', I 0, S ''<unknown>'', U 0]]\<rparr>))"
proof -
  have h1: "frame_chain (mem demo_machine) (read_ebp demo_machine) [0xf010ff18, 0xf010ff38]"
    by (simp add: demo_machine_def demo_mem_def)
  have h2: "\<forall>fp\<in>set [0xf010ff18, 0xf010ff38]. name_fits demo_machine fp"
    by (simp add: name_fits_def resolved_def demo_machine_def demo_mem_def demo_resolver_def)
  have n1: "map (bytes_of ''test_backtrace:F(0,1)'') [0..<14] = ''test_backtrace''"
    by code_simp
  have n2: "map (bytes_of ''<unknown>'') [0..<9] = ''<unknown>''"
    by code_simp
  have r1: "frame_record demo_machine 0xf010ff18 =
     [Cprintf ''  ebp %08x  eip %08x  args %08x %08x %08x %08x %08x\<newline>''
             [U 0xf010ff18, U 0xf0100068, U 5, U 0, U 0, U 0, U 0],
           Cprintf ''         %s:%d: %s+%d\<newline>''
             [S ''kern/init.c'', I 24, S ''test_backtrace'', U 0x28]]"
    by (simp add: frame_record_def resolved_def fn_name_str_def demo_machine_def demo_mem_def
        demo_resolver_def n1 n2)
  have r2: "frame_record demo_machine 0xf010ff38 =
     [Cprintf ''  ebp %08x  eip %08x  args %08x %08x %08x %08x %08x\<newline>''
             [U 0xf010ff38, U 0xf010003e, U 0, U 0, U 0, U 0, U 0],
           Cprintf ''         %s:%d: %s+%d\<newline>''
             [S ''<unknown>'', I 0, S ''<unknown>'', U 0]]"
    by (simp add: frame_record_def resolved_def fn_name_str_def demo_machine_def demo_mem_def
        demo_resolver_def n1 n2)
  have "mon_backtrace demo_machine [''backtrace''] (None :: unit Trapframe option) demo_state =
     Some (Returned 0
       (demo_state\<lparr>console := console demo_state @ Cprintf ''Stack backtrace:\<newline>'' []
          # concat (map (frame_record demo_machine) [0xf010ff18, 0xf010ff38])\<rparr>))"
    using backtrace_emits_chain [OF h1 h2, of "[''backtrace'']" None demo_state] by blast
  then have res: "mon_backtrace demo_machine [''backtrace''] (None :: unit Trapframe option) demo_state =
     Some (Returned 0
       (demo_state\<lparr>console :=
          [Cprintf ''Stack backtrace:\<newline>'' [],
           Cprintf ''  ebp %08x  eip %08x  args %08x %08x %08x %08x %08x\<newline>''
             [U 0xf010ff18, U 0xf0100068, U 5, U 0, U 0, U 0, U 0],
           Cprintf ''         %s:%d: %s+%d\<newline>''
             [S ''kern/init.c'', I 24, S ''test_backtrace'', U 0x28],
           Cprintf ''  ebp %08x  eip %08x  args %08x %08x %08x %08x %08x\<newline>''
             [U 0xf010ff38, U 0xf010003e, U 0, U 0, U 0, U 0, U 0],
           Cprintf ''         %s:%d: %s+%d\<newline>''
             [S ''<unknown>'', I 0, S ''<unknown>'', U 0]]\<rparr>))"
    by (simp add: r1 r2 demo_state_def)
  from h2 have "name_fits demo_machine 0xf010ff18" and "name_fits demo_machine 0xf010ff38"
    by simp_all
  with h1 res show ?thesis by blast
qed

text \<open>
  C1 as stated, for every chain whatever the resolver reports, fails: on a chain of two
  linked frames ending in a zero frame pointer, with a resolver that reports a name of
  100 characters, \<^verbatim>\<open>mon_backtrace\<close> writes \<^verbatim>\<open>funn[100]\<close> at the first frame and does not
  end with the two frame records.
\<close>

theorem backtrace_long_name_chain_faults:
  "frame_chain (mem long_name_machine) (read_ebp long_name_machine) [0xf010ff18, 0xf010ff38]
   \<and> mon_backtrace long_name_machine [''backtrace''] (None :: unit Trapframe option) demo_state
       = Some (Fault (OutOfBounds 100))
   \<and> mon_backtrace long_name_machine [''backtrace''] (None :: unit Trapframe option) demo_state
       \<noteq> Some (Returned 0
           (demo_state\<lparr>console := console demo_state @ Cprintf ''Stack backtrace:\<newline>'' []
              # concat (map (frame_record long_name_machine) [0xf010ff18, 0xf010ff38])\<rparr>))"
proof -
  have ch: "frame_chain (mem long_name_machine) (read_ebp long_name_machine)
      [0xf010ff18, 0xf010ff38]"
    by (simp add: long_name_machine_def demo_machine_def demo_mem_def)
  have nz: "read_ebp long_name_machine \<noteq> 0"
    by (simp add: long_name_machine_def demo_machine_def)
  have long: "100 \<le> eip_fn_namelen (resolved long_name_machine (read_ebp long_name_machine))"
    by (simp add: long_name_machine_def resolved_def)
  have "backtrace_loop long_name_machine (read_ebp long_name_machine) (replicate 100 None) s0
      = Some (Inl (OutOfBounds 100))" for s0
    using nz long by (rule backtrace_loop_overflow)
  then have flt: "mon_backtrace long_name_machine [''backtrace''] (None :: unit Trapframe option)
      demo_state = Some (Fault (OutOfBounds 100))"
    by (simp add: mon_backtrace_def)
  then have "mon_backtrace long_name_machine [''backtrace''] (None :: unit Trapframe option) demo_state
       \<noteq> Some (Returned 0
           (demo_state\<lparr>console := console demo_state @ Cprintf ''Stack backtrace:\<newline>'' []
              # concat (map (frame_record long_name_machine) [0xf010ff18, 0xf010ff38])\<rparr>))"
    by simp
  with ch flt show ?thesis by blast
qed

text \<open>
  C3, as the code has it. The walk has no bound on its iterations and no check of the
  range of a frame pointer: it stops at a zero frame pointer and nowhere else. On a chain
  that never reaches a zero frame pointer (a cycle, for one), with names that fit the
  name buffer, \<^verbatim>\<open>mon_backtrace\<close> never returns.
\<close>

theorem backtrace_walk_unbounded:
  assumes "\<forall>n. (mem m ^^ n) (read_ebp m) \<noteq> 0 \<and> name_fits m ((mem m ^^ n) (read_ebp m))"
  shows "mon_backtrace m argv tf s = None"
proof -
  have "backtrace_loop m (read_ebp m) (replicate 100 None) s0 = None" for s0
  proof (rule ccontr)
    assume "backtrace_loop m (read_ebp m) (replicate 100 None) s0 \<noteq> None"
    then obtain r where "backtrace_loop m (read_ebp m) (replicate 100 None) s0 = Some r"
      by blast
    from backtrace_loop_Some [OF this] obtain n where
      "(mem m ^^ n) (read_ebp m) = 0 \<or> \<not> name_fits m ((mem m ^^ n) (read_ebp m))"
      by auto
    with assms show False by blast
  qed
  then show ?thesis by (simp add: mon_backtrace_def)
qed

theorem backtrace_walk_unbounded_witness:
  "(\<forall>n. (mem two_cycle_machine ^^ n) (read_ebp two_cycle_machine) \<noteq> 0
        \<and> name_fits two_cycle_machine ((mem two_cycle_machine ^^ n) (read_ebp two_cycle_machine)))
   \<and> mon_backtrace two_cycle_machine [''backtrace''] (None :: unit Trapframe option) demo_state = None"
proof -
  have it: "(mem two_cycle_machine ^^ n) (read_ebp two_cycle_machine) = 0xf010ff18
      \<or> (mem two_cycle_machine ^^ n) (read_ebp two_cycle_machine) = 0xf010ff38" for n
    by (induction n) (auto simp: two_cycle_machine_def demo_machine_def)
  have fit: "name_fits two_cycle_machine 0xf010ff18 \<and> name_fits two_cycle_machine 0xf010ff38"
    by (simp add: name_fits_def resolved_def two_cycle_machine_def demo_machine_def
        demo_resolver_def)
  have h: "\<forall>n. (mem two_cycle_machine ^^ n) (read_ebp two_cycle_machine) \<noteq> 0
        \<and> name_fits two_cycle_machine ((mem two_cycle_machine ^^ n) (read_ebp two_cycle_machine))"
  proof
    fix n
    from it [of n] fit show "(mem two_cycle_machine ^^ n) (read_ebp two_cycle_machine) \<noteq> 0
        \<and> name_fits two_cycle_machine ((mem two_cycle_machine ^^ n) (read_ebp two_cycle_machine))"
      by auto
  qed
  from backtrace_walk_unbounded [OF h] h show ?thesis by blast
qed

text \<open>
  C3 as stated fails: on a frame whose saved frame pointer is its own address the walk is
  not bounded, it never returns.
\<close>

theorem backtrace_self_linked_never_returns:
  "mon_backtrace self_linked_machine [''backtrace''] (None :: unit Trapframe option) demo_state = None"
proof -
  have "backtrace_loop self_linked_machine 0xf010ff18 (replicate 100 None) s0 = None" for s0
  proof (rule ccontr)
    assume "backtrace_loop self_linked_machine 0xf010ff18 (replicate 100 None) s0 \<noteq> None"
    then obtain r where "backtrace_loop self_linked_machine 0xf010ff18 (replicate 100 None) s0 = Some r"
      by blast
    from backtrace_loop_Some [OF this] obtain n where
      "(mem self_linked_machine ^^ n) 0xf010ff18 = 0
       \<or> \<not> name_fits self_linked_machine ((mem self_linked_machine ^^ n) 0xf010ff18)"
      by auto
    then show False by (simp add: self_linked_iter self_linked_fits)
  qed
  moreover have "read_ebp self_linked_machine = 0xf010ff18"
    by (simp add: self_linked_machine_def demo_machine_def)
  ultimately show ?thesis by (simp add: mon_backtrace_def)
qed

text \<open>
  C9. The name is copied into \<^verbatim>\<open>char funn[100]\<close> with no check of the length the resolver
  reports: whenever the length reported for the first frame is 100 or more, the copy or
  its terminating NUL writes \<^verbatim>\<open>funn[100]\<close>, outside the buffer.
\<close>

theorem backtrace_name_overflow:
  assumes "read_ebp m \<noteq> 0"
    and "100 \<le> eip_fn_namelen (resolved m (read_ebp m))"
  shows "mon_backtrace m argv tf s = Some (Fault (OutOfBounds 100))"
proof -
  have "backtrace_loop m (read_ebp m) (replicate 100 None) s0 = Some (Inl (OutOfBounds 100))" for s0
    using assms by (rule backtrace_loop_overflow)
  then show ?thesis by (simp add: mon_backtrace_def)
qed

theorem backtrace_name_overflow_witness:
  "read_ebp long_name_machine \<noteq> 0
   \<and> 100 \<le> eip_fn_namelen (resolved long_name_machine (read_ebp long_name_machine))
   \<and> mon_backtrace long_name_machine [''backtrace''] (None :: unit Trapframe option) demo_state
       = Some (Fault (OutOfBounds 100))"
proof -
  have h1: "read_ebp long_name_machine \<noteq> 0"
    by (simp add: long_name_machine_def demo_machine_def)
  have h2: "100 \<le> eip_fn_namelen (resolved long_name_machine (read_ebp long_name_machine))"
    by (simp add: long_name_machine_def resolved_def)
  from backtrace_name_overflow [OF h1 h2] h1 h2 show ?thesis by blast
qed

subsection \<open>The parser and the dispatcher\<close>

text \<open>
  C6. When the line in the buffer has at most \<^verbatim>\<open>MAXARGS\<close> - 1 tokens, the parser succeeds
  and the arguments it leaves, read as C strings in the buffer, are the tokens of the
  line, in order. In particular a list of at most \<^verbatim>\<open>MAXARGS\<close> - 1 non-empty tokens without
  whitespace, written on a line with spaces between them, comes back unchanged.
\<close>

theorem tokenizer_preserves_tokens:
  "(length (tokens (line_of buf)) \<le> MAXARGS - 1 \<longrightarrow>
      (\<exists>buf' argv. parse buf 0 [] = Some (buf', argv)
          \<and> map (c_str buf') argv = tokens (line_of buf)))
   \<and> (length ts \<le> MAXARGS - 1
        \<and> (\<forall>t\<in>set ts. t \<noteq> [] \<and> (\<forall>c\<in>set t. c \<noteq> CHR 0x00 \<and> c \<notin> set WHITESPACE)) \<longrightarrow>
      (\<exists>buf' argv. parse (unwords ts) 0 [] = Some (buf', argv)
          \<and> map (c_str buf') argv = ts))"
proof (intro conjI impI)
  assume "length (tokens (line_of buf)) \<le> MAXARGS - 1"
  with parse_line [of buf]
  show "\<exists>buf' argv. parse buf 0 [] = Some (buf', argv)
          \<and> map (c_str buf') argv = tokens (line_of buf)"
    by blast
next
  assume a: "length ts \<le> MAXARGS - 1
        \<and> (\<forall>t\<in>set ts. t \<noteq> [] \<and> (\<forall>c\<in>set t. c \<noteq> CHR 0x00 \<and> c \<notin> set WHITESPACE))"
  then have "line_of (unwords ts) = unwords ts" by (intro line_of_unwords) blast
  moreover from a have "tokens (unwords ts) = ts" by (intro tokens_unwords) blast
  ultimately show "\<exists>buf' argv. parse (unwords ts) 0 [] = Some (buf', argv)
          \<and> map (c_str buf') argv = ts"
    using a parse_line [of "unwords ts"] by simp
qed

theorem tokenizer_preserves_tokens_witness:
  "length (tokens (line_of ''  chcolor   rg '')) \<le> MAXARGS - 1
   \<and> (\<exists>buf' argv. parse ''  chcolor   rg '' 0 [] = Some (buf', argv)
         \<and> map (c_str buf') argv = [''chcolor'', ''rg''])
   \<and> length [''chcolor'', ''rg''] \<le> MAXARGS - 1
   \<and> set ''chcolor'' \<inter> insert (CHR 0x00) (set WHITESPACE) = {}
   \<and> set ''rg'' \<inter> insert (CHR 0x00) (set WHITESPACE) = {}
   \<and> (\<exists>buf' argv. parse ''chcolor rg'' 0 [] = Some (buf', argv)
         \<and> map (c_str buf') argv = [''chcolor'', ''rg''])"
proof -
  have tk: "tokens (line_of ''  chcolor   rg '') = [''chcolor'', ''rg'']"
    by (simp add: line_of_def WHITESPACE_def)
  have h2: "length [''chcolor'', ''rg''] \<le> MAXARGS - 1
     \<and> (\<forall>t\<in>set [''chcolor'', ''rg'']. t \<noteq> [] \<and> (\<forall>c\<in>set t. c \<noteq> CHR 0x00 \<and> c \<notin> set WHITESPACE))"
    by (simp add: MAXARGS_def WHITESPACE_def)
  have h1: "length (tokens (line_of ''  chcolor   rg '')) \<le> MAXARGS - 1"
    by (simp add: tk MAXARGS_def)
  have h3: "set ''chcolor'' \<inter> insert (CHR 0x00) (set WHITESPACE) = {}"
    "set ''rg'' \<inter> insert (CHR 0x00) (set WHITESPACE) = {}"
    by (simp_all add: WHITESPACE_def)
  from tokenizer_preserves_tokens [of "''  chcolor   rg ''" "[''chcolor'', ''rg'']"] h1 h2 h3 tk
  show ?thesis by simp
qed

text \<open>
  C7. When the line has more than \<^verbatim>\<open>MAXARGS\<close> - 1 tokens (so also when it has more than
  \<^verbatim>\<open>MAXARGS\<close>), \<^verbatim>\<open>runcmd\<close> prints the error, returns 0 and does nothing else: the state
  is the old one with the one message added, so no handler has printed, stored a colour
  or resumed. The loop of the monitor goes on with the next line.
\<close>

theorem too_many_tokens_rejected:
  assumes "MAXARGS - 1 < length (tokens (line_of buf))"
  shows "runcmd m buf tf s =
     Some (Returned 0
       (s\<lparr>console := console s @ [Cprintf ''Too many arguments (max %d)\<newline>'' [I 16]]\<rparr>))
   \<and> monitor_loop m tf (Some buf # bufs) s =
     monitor_loop m tf bufs
       (s\<lparr>console := console s @ [Cprintf ''Too many arguments (max %d)\<newline>'' [I 16]]\<rparr>)"
proof -
  from assms parse_line [of buf] have "parse buf 0 [] = None" by blast
  then have "runcmd m buf tf s =
     Some (Returned 0
       (s\<lparr>console := console s @ [Cprintf ''Too many arguments (max %d)\<newline>'' [I 16]]\<rparr>))"
    by (simp add: runcmd_def cprintf_def MAXARGS_def)
  then show ?thesis by simp
qed

theorem too_many_tokens_rejected_witness:
  "MAXARGS - 1 < length (tokens (line_of ''a b c d e f g h i j k l m n o p''))
   \<and> runcmd demo_machine ''a b c d e f g h i j k l m n o p'' (Some demo_tf) demo_state =
     Some (Returned 0
       (demo_state\<lparr>console := [Cprintf ''Too many arguments (max %d)\<newline>'' [I 16]]\<rparr>))
   \<and> monitor_loop demo_machine (Some demo_tf) [Some ''a b c d e f g h i j k l m n o p''] demo_state =
     Some (Reading
       (demo_state\<lparr>console := [Cprintf ''Too many arguments (max %d)\<newline>'' [I 16]]\<rparr>))"
proof -
  have h: "MAXARGS - 1 < length (tokens (line_of ''a b c d e f g h i j k l m n o p''))"
    by (simp add: line_of_def WHITESPACE_def MAXARGS_def)
  from too_many_tokens_rejected [OF h, of demo_machine "Some demo_tf" demo_state "[]"] h
  show ?thesis by (simp add: demo_state_def)
qed

subsection \<open>chcolor\<close>

text \<open>
  C5. With the one argument \<^verbatim>\<open>rg\<close>, \<^verbatim>\<open>mon_chcolor\<close> stores the attribute made of the
  background-red bit (bit 6) and the foreground-green bit (bit 1), shifted into the high
  byte, that is \<open>0x4200\<close>; with \<^verbatim>\<open>xx\<close>, and with any two characters outside r, g, b, w,
  it stores 0. So do the lines \<^verbatim>\<open>chcolor rg\<close> and \<^verbatim>\<open>chcolor xx\<close> given to \<^verbatim>\<open>runcmd\<close>.
\<close>

theorem chcolor_rg_xx:
  "mon_chcolor m [cmd, ''rg''] tf s =
     Some (Returned 0 (s\<lparr>CGA_COLOR_MASK := push_bit 8 (push_bit 6 1 OR push_bit 1 1),
                          console := console s @ [Cprintf ''Color changed\<newline>'' []]\<rparr>))
   \<and> mon_chcolor m [cmd, ''xx''] tf s =
     Some (Returned 0 (s\<lparr>CGA_COLOR_MASK := 0,
                          console := console s @ [Cprintf ''Color changed\<newline>'' []]\<rparr>))
   \<and> (c0 \<notin> set ''rgbw'' \<and> c1 \<notin> set ''rgbw'' \<longrightarrow>
        mon_chcolor m [cmd, [c0, c1]] tf s =
          Some (Returned 0 (s\<lparr>CGA_COLOR_MASK := 0,
                               console := console s @ [Cprintf ''Color changed\<newline>'' []]\<rparr>)))
   \<and> runcmd m ''chcolor rg'' tf s =
     Some (Returned 0 (s\<lparr>CGA_COLOR_MASK := 0x4200,
                          console := console s @ [Cprintf ''Color changed\<newline>'' []]\<rparr>))
   \<and> runcmd m ''chcolor xx'' tf s =
     Some (Returned 0 (s\<lparr>CGA_COLOR_MASK := 0,
                          console := console s @ [Cprintf ''Color changed\<newline>'' []]\<rparr>))"
  by (simp add: runcmd_chcolor_rg runcmd_chcolor_xx mon_chcolor_def bg_of_def ft_of_def
      cprintf_def Let_def)

theorem chcolor_rg_xx_witness:
  "CHR ''x'' \<notin> set ''rgbw'' \<and> CHR ''y'' \<notin> set ''rgbw''
   \<and> mon_chcolor demo_machine [''chcolor'', ''xy''] (None :: unit Trapframe option) demo_state =
       Some (Returned 0 \<lparr>CGA_COLOR_MASK = 0, console = [Cprintf ''Color changed\<newline>'' []]\<rparr>)
   \<and> mon_chcolor demo_machine [''chcolor'', ''rg''] (None :: unit Trapframe option) demo_state =
       Some (Returned 0 \<lparr>CGA_COLOR_MASK = 0x4200, console = [Cprintf ''Color changed\<newline>'' []]\<rparr>)"
  using chcolor_rg_xx [of demo_machine "''chcolor''" "None :: unit Trapframe option" demo_state
      "CHR ''x''" "CHR ''y''"]
  by (simp add: demo_state_def)

text \<open>
  C8. When \<^verbatim>\<open>mon_chcolor\<close> is not given exactly one argument, or the argument is not two
  characters long, it prints an error message and leaves \<^verbatim>\<open>CGA_COLOR_MASK\<close> as it was
  (the line \<^verbatim>\<open>Color changed\<close> is printed on this path too).
\<close>

theorem chcolor_bad_arguments:
  assumes "length argv \<noteq> 2 \<or> length (argv ! 1) \<noteq> 2"
  shows "\<exists>msg. msg \<in> {''Argument number error\<newline>'', ''Argument error''}
           \<and> mon_chcolor m argv tf s =
               Some (Returned 0 (s\<lparr>console := console s @
                  [Cprintf msg [], Cprintf ''Color changed\<newline>'' []]\<rparr>))"
  using assms by (auto simp add: mon_chcolor_def cprintf_def Let_def)

theorem chcolor_bad_arguments_witness:
  "length ([''chcolor'', ''rgb''] ! 1) \<noteq> 2
   \<and> (\<exists>msg. msg \<in> {''Argument number error\<newline>'', ''Argument error''}
        \<and> mon_chcolor demo_machine [''chcolor'', ''rgb''] (None :: unit Trapframe option) demo_state =
            Some (Returned 0 \<lparr>CGA_COLOR_MASK = 0x0700,
                    console = [Cprintf msg [], Cprintf ''Color changed\<newline>'' []]\<rparr>))"
proof -
  have h: "length [''chcolor'', ''rgb''] \<noteq> 2 \<or> length ([''chcolor'', ''rgb''] ! 1) \<noteq> 2"
    by simp
  from chcolor_bad_arguments [OF h, of demo_machine "None :: unit Trapframe option" demo_state] h
  show ?thesis by (simp add: demo_state_def)
qed

subsection \<open>continue and si\<close>

text \<open>
  C2. Given a trap frame, \<^verbatim>\<open>si\<close> ends in \<^verbatim>\<open>env_pop_tf\<close> with a trap frame in which the
  \<^verbatim>\<open>FL_TF\<close> bit is set, and \<^verbatim>\<open>continue\<close> with one in which it is clear; so also when
  the commands come through \<^verbatim>\<open>runcmd\<close>.
\<close>

theorem si_sets_continue_clears_FL_TF:
  "(\<exists>tf' s'. mon_si m argv (Some tf) s = Some (Resumed tf' s')
       \<and> tf_eflags tf' AND FL_TF m = FL_TF m)
   \<and> (\<exists>tf' s'. mon_continue m argv (Some tf) s = Some (Resumed tf' s')
       \<and> tf_eflags tf' AND FL_TF m = 0)
   \<and> (\<exists>tf' s'. runcmd m ''si'' (Some tf) s = Some (Resumed tf' s')
       \<and> tf_eflags tf' AND FL_TF m = FL_TF m)
   \<and> (\<exists>tf' s'. runcmd m ''continue'' (Some tf) s = Some (Resumed tf' s')
       \<and> tf_eflags tf' AND FL_TF m = 0)"
  by (simp add: runcmd_si runcmd_continue mon_si_def mon_continue_def Let_def
      word_bw_assocs word_ao_absorbs)

text \<open>
  C10. The trap frame handed to \<^verbatim>\<open>env_pop_tf\<close> by \<^verbatim>\<open>continue\<close> and \<^verbatim>\<open>si\<close> is the given one
  but for \<^verbatim>\<open>tf_eflags\<close>, and \<^verbatim>\<open>tf_eflags\<close> is the given one but for the \<^verbatim>\<open>FL_TF\<close> bit.
\<close>

theorem resume_changes_only_FL_TF:
  "(\<exists>tf' s'. mon_continue m argv (Some tf) s = Some (Resumed tf' s')
       \<and> tf'\<lparr>tf_eflags := tf_eflags tf\<rparr> = tf
       \<and> tf_eflags tf' AND NOT (FL_TF m) = tf_eflags tf AND NOT (FL_TF m)
       \<and> tf_eflags tf' AND FL_TF m = 0)
   \<and> (\<exists>tf' s'. mon_si m argv (Some tf) s = Some (Resumed tf' s')
       \<and> tf'\<lparr>tf_eflags := tf_eflags tf\<rparr> = tf
       \<and> tf_eflags tf' AND NOT (FL_TF m) = tf_eflags tf AND NOT (FL_TF m)
       \<and> tf_eflags tf' AND FL_TF m = FL_TF m)"
proof -
  have a: "(x AND NOT f) AND NOT f = x AND NOT f" and b: "(x AND NOT f) AND f = 0"
    and c: "(x OR f) AND NOT f = x AND NOT f" and d: "(x OR f) AND f = f" for x f :: u32
    by (auto simp: bit_eq_iff bit_simps)
  show ?thesis
    by (simp add: mon_si_def mon_continue_def Let_def a b c d)
qed

text \<open>
  C4. Without a trap frame, \<^verbatim>\<open>continue\<close> and \<^verbatim>\<open>si\<close> print \<^verbatim>\<open>Not a breakpoint\<close> and return
  0: \<^verbatim>\<open>env_pop_tf\<close> is not called and nothing but the console changes. So it is for
  the handlers, for the two lines given to \<^verbatim>\<open>runcmd\<close>, and the loop of the monitor goes
  on with the next line.
\<close>

theorem no_breakpoint_reported:
  "mon_continue m argv None s =
     Some (Returned 0 (s\<lparr>console := console s @ [Cprintf ''Not a breakpoint\<newline>'' []]\<rparr>))
   \<and> mon_si m argv None s =
     Some (Returned 0 (s\<lparr>console := console s @ [Cprintf ''Not a breakpoint\<newline>'' []]\<rparr>))
   \<and> runcmd m ''continue'' None s =
     Some (Returned 0 (s\<lparr>console := console s @ [Cprintf ''Not a breakpoint\<newline>'' []]\<rparr>))
   \<and> runcmd m ''si'' None s =
     Some (Returned 0 (s\<lparr>console := console s @ [Cprintf ''Not a breakpoint\<newline>'' []]\<rparr>))
   \<and> monitor_loop m None (Some ''continue'' # bufs) s =
     monitor_loop m None bufs
       (s\<lparr>console := console s @ [Cprintf ''Not a breakpoint\<newline>'' []]\<rparr>)
   \<and> monitor_loop m None (Some ''si'' # bufs) s =
     monitor_loop m None bufs
       (s\<lparr>console := console s @ [Cprintf ''Not a breakpoint\<newline>'' []]\<rparr>)"
  by (simp add: runcmd_si runcmd_continue mon_continue_def mon_si_def cprintf_def)

end
